theory Spec2Isabelle
  imports Main
begin

section \<open>The Settings view (src/components/Settings.tsx)\<close>

subsection \<open>Records of the persistence schema\<close>

text \<open>
  Modelled from the spec: the type declarations \<^verbatim>\<open>PersonalInfo\<close> and \<^verbatim>\<open>APIConfig\<close> are
  imported by Settings.tsx from \<^verbatim>\<open>../db\<close>, which is not among the sources. Their fields are
  taken from the data model of the specification and agree with the object literals of
  Settings.tsx (lines 7-21). The two optional fields \<^verbatim>\<open>n8n_base_url?\<close> and
  \<^verbatim>\<open>n8n_api_key?\<close> are options: \<open>None\<close> is the absent (undefined) field.
\<close>

datatype ThemeMode = light | dark | system

datatype ApiType = ollama | openai

record PersonalInfo =
  name :: string
  email :: string
  avatar_url :: string
  timezone :: string
  theme_preference :: ThemeMode

record APIConfig =
  ollama_base_url :: string
  comfyui_base_url :: string
  openai_api_key :: string
  openai_base_url :: string
  api_type :: ApiType
  n8n_base_url :: "string option"
  n8n_api_key :: "string option"

subsection \<open>Component state, timers and the persistence collaborator\<close>

datatype SaveStatus = idle | success | error

text \<open>The two write operations of the persistence collaborator, as a call with its argument.\<close>

datatype db_call = updatePersonalInfo PersonalInfo | updateAPIConfig APIConfig

text \<open>
  The collaborator itself is not part of the sources. It is a parameter of the model: given
  the calls made so far and the next call, it says whether that call throws (rejects).
\<close>

type_synonym db = "db_call list \<Rightarrow> db_call \<Rightarrow> bool"

text \<open>
  The closures handed to \<^verbatim>\<open>setTimeout\<close>. The save callback (lines 57-68) closes over the
  \<^verbatim>\<open>personalInfo\<close> and \<^verbatim>\<open>apiConfig\<close> of the render that scheduled it; the reset callback
  (line 62) is \<^verbatim>\<open>() => setSaveStatus('idle')\<close>.
\<close>

datatype callback = SaveCb PersonalInfo APIConfig | ResetStatusCb

record timer =
  tid :: nat
  due :: nat
  cb :: callback

text \<open>
  A save callback that has started and is suspended at one of its two awaits: at line 59,
  after it has called \<^verbatim>\<open>updatePersonalInfo\<close>, or at line 60, after it has called
  \<^verbatim>\<open>updateAPIConfig\<close>. It keeps the two records it closed over, and whether the promise it
  awaits is going to reject.
\<close>

datatype save_stage = AwaitPersonalInfo | AwaitAPIConfig

record suspended_save =
  stage :: save_stage
  snap_personalInfo :: PersonalInfo
  snap_apiConfig :: APIConfig
  rejects :: bool

text \<open>
  The \<^verbatim>\<open>useState\<close> cells and the \<^verbatim>\<open>saveTimeout\<close> ref of the component, together with the
  part of the environment it acts on: the live timers of the event loop, the next timer
  id, the clock in milliseconds, the save callbacks suspended at an await, the calls
  received by the persistence collaborator and the calls received by the theme controller.
\<close>

record Settings =
  personalInfo :: PersonalInfo
  apiConfig :: APIConfig
  isSaving :: bool
  saveStatus :: SaveStatus
  showApiKey :: bool
  saveTimeout :: "nat option"
  timers :: "timer list"
  next_timer :: nat
  clock :: nat
  in_flight :: "suspended_save list"
  db_calls :: "db_call list"
  theme_calls :: "ThemeMode list"

text \<open>
  \<^verbatim>\<open>clearTimeout(id)\<close> removes the timer with that id, if it is still live;
  \<^verbatim>\<open>setTimeout(f, ms)\<close> registers a timer under a fresh id and returns the id.
\<close>

definition clearTimeout :: "nat \<Rightarrow> Settings \<Rightarrow> Settings" where
  "clearTimeout i s = s\<lparr>timers := filter (\<lambda>t. tid t \<noteq> i) (timers s)\<rparr>"

definition setTimeout :: "callback \<Rightarrow> nat \<Rightarrow> Settings \<Rightarrow> nat \<times> Settings" where
  "setTimeout f ms s =
     (next_timer s,
      s\<lparr>timers := timers s @ [\<lparr>tid = next_timer s, due = clock s + ms, cb = f\<rparr>],
        next_timer := Suc (next_timer s)\<rparr>)"

text \<open>
  \<^verbatim>\<open>if (saveTimeout.current) clearTimeout(saveTimeout.current)\<close> (lines 54 and 70): the ref is
  tested for truthiness, so \<^verbatim>\<open>null\<close> and the number 0 both skip the call.
\<close>

definition clear_saveTimeout :: "Settings \<Rightarrow> Settings" where
  "clear_saveTimeout s =
     (case saveTimeout s of
        None \<Rightarrow> s
      | Some i \<Rightarrow> if i \<noteq> 0 then clearTimeout i s else s)"

text \<open>The body of the auto-save effect (lines 53-68) and its cleanup (lines 69-71).\<close>

definition autoSaveEffect :: "Settings \<Rightarrow> Settings" where
  "autoSaveEffect s =
     (let s1 = clear_saveTimeout s;
          s2 = s1\<lparr>isSaving := True, saveStatus := idle\<rparr>;
          (i, s3) = setTimeout (SaveCb (personalInfo s) (apiConfig s)) 600 s2
      in s3\<lparr>saveTimeout := Some i\<rparr>)"

definition autoSaveCleanup :: "Settings \<Rightarrow> Settings" where
  "autoSaveCleanup s = clear_saveTimeout s"

text \<open>
  A commit in which \<^verbatim>\<open>personalInfo\<close> or \<^verbatim>\<open>apiConfig\<close> is a new object: the dependency
  array \<^verbatim>\<open>[personalInfo, apiConfig]\<close> has changed, so the cleanup of the previous effect
  runs and then the effect runs again.
\<close>

definition rerender :: "Settings \<Rightarrow> Settings" where
  "rerender s = autoSaveEffect (autoSaveCleanup s)"

subsection \<open>User edits\<close>

text \<open>
  One constructor per \<^verbatim>\<open>onChange\<close>/\<^verbatim>\<open>onClick\<close> handler that calls \<^verbatim>\<open>setPersonalInfo\<close> or
  \<^verbatim>\<open>setApiConfig\<close>. Every handler has the form \<^verbatim>\<open>prev => ({ ...prev, field: value })\<close>;
  \<^verbatim>\<open>handleThemeChange\<close> (lines 75-79) also calls \<^verbatim>\<open>setTheme\<close>.
\<close>

datatype edit =
    SetName string
  | SetEmail string
  | SetAvatarUrl string
  | SetTimezone string
  | SetThemePreference ThemeMode
  | SetApiType ApiType
  | SetOllamaBaseUrl string
  | SetOpenaiBaseUrl string
  | SetOpenaiApiKey string
  | SetComfyuiBaseUrl string
  | SetN8nBaseUrl string
  | SetN8nApiKey string

fun edit_state :: "edit \<Rightarrow> Settings \<Rightarrow> Settings" where
  "edit_state (SetName v) s = s\<lparr>personalInfo := (personalInfo s)\<lparr>name := v\<rparr>\<rparr>"
| "edit_state (SetEmail v) s = s\<lparr>personalInfo := (personalInfo s)\<lparr>email := v\<rparr>\<rparr>"
| "edit_state (SetAvatarUrl v) s = s\<lparr>personalInfo := (personalInfo s)\<lparr>avatar_url := v\<rparr>\<rparr>"
| "edit_state (SetTimezone v) s = s\<lparr>personalInfo := (personalInfo s)\<lparr>timezone := v\<rparr>\<rparr>"
| "edit_state (SetThemePreference v) s =
     s\<lparr>personalInfo := (personalInfo s)\<lparr>theme_preference := v\<rparr>,
       theme_calls := theme_calls s @ [v]\<rparr>"
| "edit_state (SetApiType v) s = s\<lparr>apiConfig := (apiConfig s)\<lparr>api_type := v\<rparr>\<rparr>"
| "edit_state (SetOllamaBaseUrl v) s = s\<lparr>apiConfig := (apiConfig s)\<lparr>ollama_base_url := v\<rparr>\<rparr>"
| "edit_state (SetOpenaiBaseUrl v) s = s\<lparr>apiConfig := (apiConfig s)\<lparr>openai_base_url := v\<rparr>\<rparr>"
| "edit_state (SetOpenaiApiKey v) s = s\<lparr>apiConfig := (apiConfig s)\<lparr>openai_api_key := v\<rparr>\<rparr>"
| "edit_state (SetComfyuiBaseUrl v) s = s\<lparr>apiConfig := (apiConfig s)\<lparr>comfyui_base_url := v\<rparr>\<rparr>"
| "edit_state (SetN8nBaseUrl v) s = s\<lparr>apiConfig := (apiConfig s)\<lparr>n8n_base_url := Some v\<rparr>\<rparr>"
| "edit_state (SetN8nApiKey v) s = s\<lparr>apiConfig := (apiConfig s)\<lparr>n8n_api_key := Some v\<rparr>\<rparr>"

text \<open>An edit sets the state and commits the render that follows it.\<close>

definition apply_edit :: "edit \<Rightarrow> Settings \<Rightarrow> Settings" where
  "apply_edit e s = rerender (edit_state e s)"

subsection \<open>Mount and load\<close>

text \<open>
  The initial \<^verbatim>\<open>useState\<close> values (lines 7-28). The default timezone is
  \<^verbatim>\<open>Intl.DateTimeFormat().resolvedOptions().timeZone\<close>, a value of the runtime environment:
  the parameter \<open>tz\<close>. Timer ids of the event loop are positive integers.
\<close>

definition initial :: "string \<Rightarrow> Settings" where
  "initial tz =
     \<lparr>personalInfo = \<lparr>name = '''', email = '''', avatar_url = '''', timezone = tz,
                       theme_preference = system\<rparr>,
      apiConfig = \<lparr>ollama_base_url = '''', comfyui_base_url = '''', openai_api_key = '''',
                    openai_base_url = '''', api_type = ollama,
                    n8n_base_url = None, n8n_api_key = None\<rparr>,
      isSaving = False, saveStatus = idle, showApiKey = False, saveTimeout = None,
      timers = [], next_timer = 1, clock = 0, in_flight = [], db_calls = [],
      theme_calls = []\<rparr>"

text \<open>
  The first commit runs both effects: the load effect starts \<^verbatim>\<open>loadSettings\<close>, whose reads
  resolve later; the auto-save effect runs on the initial state.
\<close>

definition mount :: "string \<Rightarrow> Settings" where
  "mount tz = autoSaveEffect (initial tz)"

text \<open>
  The part of \<^verbatim>\<open>loadSettings\<close> after its two awaits (lines 35-45), given what
  \<^verbatim>\<open>getPersonalInfo\<close> and \<^verbatim>\<open>getAPIConfig\<close> returned (\<open>None\<close> for absent). The state updates
  are committed in one render; when neither setter is called nothing is rendered again.
  \<^verbatim>\<open>x || 'https://api.openai.com/v1'\<close> replaces the empty string.
\<close>

definition loadSettings :: "PersonalInfo option \<Rightarrow> APIConfig option \<Rightarrow> Settings \<Rightarrow> Settings" where
  "loadSettings savedPersonalInfo savedApiConfig s =
     (let s1 = (case savedPersonalInfo of
                  None \<Rightarrow> s
                | Some p \<Rightarrow> s\<lparr>personalInfo := p,
                               theme_calls := theme_calls s @ [theme_preference p]\<rparr>);
          s2 = (case savedApiConfig of
                  None \<Rightarrow> s1
                | Some c \<Rightarrow>
                    s1\<lparr>apiConfig := c\<lparr>openai_base_url :=
                          (if openai_base_url c = '''' then ''https://api.openai.com/v1''
                           else openai_base_url c)\<rparr>\<rparr>)
      in if savedPersonalInfo = None \<and> savedApiConfig = None then s2 else rerender s2)"

subsection \<open>Timers firing and writes settling\<close>

text \<open>
  A timer callback runs until it returns or reaches an await. The save callback
  (lines 57-68) calls \<^verbatim>\<open>updatePersonalInfo\<close> with the personal info it closed over and is
  suspended at the await of line 59. The reset callback (line 62) sets the status.
\<close>

fun run_callback :: "db \<Rightarrow> callback \<Rightarrow> Settings \<Rightarrow> Settings" where
  "run_callback throws (SaveCb p c) s =
     s\<lparr>db_calls := db_calls s @ [updatePersonalInfo p],
       in_flight := in_flight s @
         [\<lparr>stage = AwaitPersonalInfo, snap_personalInfo = p, snap_apiConfig = c,
           rejects = throws (db_calls s) (updatePersonalInfo p)\<rparr>]\<rparr>"
| "run_callback throws ResetStatusCb s = s\<lparr>saveStatus := idle\<rparr>"

text \<open>
  The promise awaited by the suspended save number \<open>i\<close> settles, and the callback goes on
  (lines 59-67). A rejection goes to the \<^verbatim>\<open>catch\<close>: the status is \<^verbatim>\<open>error\<close>. After the first
  write the callback calls \<^verbatim>\<open>updateAPIConfig\<close> with the configuration it closed over and is
  suspended again, at line 60. After the second write the status is \<^verbatim>\<open>success\<close> and the
  reset of the status is scheduled. The \<^verbatim>\<open>finally\<close> clears \<^verbatim>\<open>isSaving\<close> when the callback
  ends. An index that names no suspended save changes nothing.
\<close>

definition resume_save :: "db \<Rightarrow> nat \<Rightarrow> Settings \<Rightarrow> Settings" where
  "resume_save throws i s =
     (if i < length (in_flight s) then
        let f = in_flight s ! i;
            others = take i (in_flight s) @ drop (Suc i) (in_flight s)
        in if rejects f
           then s\<lparr>in_flight := others, saveStatus := error, isSaving := False\<rparr>
           else (case stage f of
               AwaitPersonalInfo \<Rightarrow>
                 s\<lparr>db_calls := db_calls s @ [updateAPIConfig (snap_apiConfig f)],
                   in_flight := (in_flight s)
                     [i := f\<lparr>stage := AwaitAPIConfig,
                             rejects := throws (db_calls s) (updateAPIConfig (snap_apiConfig f))\<rparr>]\<rparr>
             | AwaitAPIConfig \<Rightarrow>
                 (snd (setTimeout ResetStatusCb 2000
                        (s\<lparr>in_flight := others, saveStatus := success\<rparr>)))
                   \<lparr>isSaving := False\<rparr>)
      else s)"

text \<open>
  One millisecond passes: the timers that are due leave the event loop and their
  callbacks run, in the order in which they were registered.
\<close>

definition tick :: "db \<Rightarrow> Settings \<Rightarrow> Settings" where
  "tick throws s =
     (let now = Suc (clock s);
          ready = filter (\<lambda>t. due t \<le> now) (timers s);
          s1 = s\<lparr>clock := now, timers := filter (\<lambda>t. \<not> due t \<le> now) (timers s)\<rparr>
      in fold (\<lambda>t. run_callback throws (cb t)) ready s1)"

primrec advance :: "db \<Rightarrow> nat \<Rightarrow> Settings \<Rightarrow> Settings" where
  "advance throws 0 s = s"
| "advance throws (Suc n) s = advance throws n (tick throws s)"

subsection \<open>Event sequences\<close>

text \<open>
  What happens to the mounted component: a user edit, the toggle of the key visibility,
  the resolution of the two reads of \<^verbatim>\<open>loadSettings\<close>, and the settling of an awaited
  write. Writes may settle at any time and in any order.
\<close>

datatype event =
    Edit edit
  | ToggleShowApiKey
  | LoadSettings "PersonalInfo option" "APIConfig option"
  | Settle nat

fun handle_event :: "db \<Rightarrow> event \<Rightarrow> Settings \<Rightarrow> Settings" where
  "handle_event throws (Edit e) s = apply_edit e s"
| "handle_event throws ToggleShowApiKey s = s\<lparr>showApiKey := \<not> showApiKey s\<rparr>"
| "handle_event throws (LoadSettings sp sc) s = loadSettings sp sc s"
| "handle_event throws (Settle i) s = resume_save throws i s"

text \<open>Each event comes with the number of milliseconds since the previous one.\<close>

fun run :: "db \<Rightarrow> Settings \<Rightarrow> (nat \<times> event) list \<Rightarrow> Settings" where
  "run throws s [] = s"
| "run throws s ((gap, ev) # evs) =
     run throws (handle_event throws ev (advance throws gap s)) evs"

text \<open>
  The events that commit a change of \<^verbatim>\<open>personalInfo\<close> or \<^verbatim>\<open>apiConfig\<close>, and so run the
  auto-save effect again.
\<close>

fun rearms :: "event \<Rightarrow> bool" where
  "rearms (Edit e) = True"
| "rearms (LoadSettings sp sc) = (\<not> (sp = None \<and> sc = None))"
| "rearms ToggleShowApiKey = False"
| "rearms (Settle i) = False"

text \<open>
  A burst: every event of the list comes less than 600 ms after the latest change of the
  records, where \<open>k\<close> is the time since the latest change before the list. The result is
  the time since the latest change at the end of the list.
\<close>

fun since_last_change :: "nat \<Rightarrow> (nat \<times> event) list \<Rightarrow> nat option" where
  "since_last_change k [] = Some k"
| "since_last_change k ((gap, ev) # evs) =
     (if k + gap < 600
      then since_last_change (if rearms ev then 0 else k + gap) evs
      else None)"

text \<open>A persistence collaborator none of whose writes throws.\<close>

definition always_resolves :: db where
  "always_resolves hist call = False"

text \<open>The live timers that hold a save callback.\<close>

definition pending_saves :: "Settings \<Rightarrow> timer list" where
  "pending_saves s = filter (\<lambda>t. cb t \<noteq> ResetStatusCb) (timers s)"

text \<open>
  The invariant of the timer bookkeeping: timer ids are positive, distinct and below the
  next id, and every live save timer is the one stored in the \<^verbatim>\<open>saveTimeout\<close> ref.
\<close>

definition timers_ok :: "Settings \<Rightarrow> bool" where
  "timers_ok s \<longleftrightarrow>
     0 < next_timer s \<and>
     distinct (map tid (timers s)) \<and>
     list_all (\<lambda>t. 0 < tid t \<and> tid t < next_timer s) (timers s) \<and>
     list_all (\<lambda>t. saveTimeout s = Some (tid t)) (pending_saves s)"

text \<open>
  The writes made since the call list was \<open>base\<close> are calls of \<^verbatim>\<open>updateAPIConfig\<close> with
  configurations of the set \<open>A\<close>, and every suspended save closed over a configuration of
  \<open>A\<close>.
\<close>

definition continues_only :: "APIConfig set \<Rightarrow> db_call list \<Rightarrow> Settings \<Rightarrow> bool" where
  "continues_only A base s \<longleftrightarrow>
     (\<exists>cs. db_calls s = base @ map updateAPIConfig cs \<and> set cs \<subseteq> A) \<and>
     snap_apiConfig ` set (in_flight s) \<subseteq> A"

subsection \<open>Rendering of the API configuration section\<close>

datatype input_field =
    ApiTypeButtons
  | OllamaBaseUrl
  | OpenAIBaseUrl
  | OpenAIApiKey
  | ComfyUIBaseUrl
  | N8nBaseUrl
  | N8nApiKey

text \<open>
  The input groups of the API configuration section in document order (lines 158-298),
  each with the inputs it contains. \<^verbatim>\<open>cond && (<div>...</div>)\<close> renders nothing when the
  condition is false.
\<close>

definition api_section :: "APIConfig \<Rightarrow> input_field list list" where
  "api_section c =
     [[ApiTypeButtons]] @
     (if api_type c = ollama then [[OllamaBaseUrl]] else []) @
     (if api_type c = openai then [[OpenAIBaseUrl, OpenAIApiKey]] else []) @
     [[ComfyUIBaseUrl], [N8nBaseUrl, N8nApiKey]]"

section \<open>The widget context menu (WidgetContextMenu)\<close>

text \<open>
  The props of the component (lines 4-12). A callback is a value of an arbitrary type
  \<open>'f\<close>; an optional prop that is not supplied is \<open>None\<close>. The coordinates are the fields
  \<^verbatim>\<open>x\<close> and \<^verbatim>\<open>y\<close> of the source.
\<close>

record 'f ContextMenuProps =
  menu_x :: int
  menu_y :: int
  onClose :: 'f
  onAddWidget :: "'f option"
  onRemoveWidget :: "'f option"
  onRearrangeWidgets :: "'f option"
  showRemove :: "bool option"

datatype control = AddWidgetButton | RearrangeWidgetsButton | RemoveWidgetButton

text \<open>The default of the destructured prop: \<^verbatim>\<open>showRemove = false\<close> (line 21).\<close>

definition show_remove :: "'f ContextMenuProps \<Rightarrow> bool" where
  "show_remove p = (case showRemove p of None \<Rightarrow> False | Some b \<Rightarrow> b)"

text \<open>The buttons the menu renders (lines 43-81), each with the callback bound to it.\<close>

definition render_menu :: "'f ContextMenuProps \<Rightarrow> (control \<times> 'f) list" where
  "render_menu p =
     (case onAddWidget p of None \<Rightarrow> [] | Some f \<Rightarrow> [(AddWidgetButton, f)]) @
     (case onRearrangeWidgets p of None \<Rightarrow> [] | Some f \<Rightarrow> [(RearrangeWidgetsButton, f)]) @
     (if show_remove p
      then (case onRemoveWidget p of None \<Rightarrow> [] | Some f \<Rightarrow> [(RemoveWidgetButton, f)])
      else [])"

text \<open>The class lists of the menu's root element (line 37) and of its buttons.\<close>

definition menu_classes :: "string list" where
  "menu_classes =
     [''context-menu'', ''fixed'', ''bg-white'', ''dark:bg-gray-800'', ''rounded-lg'',
      ''shadow-lg'', ''border'', ''border-gray-200'', ''dark:border-gray-700'', ''py-1'',
      ''z-50'']"

fun button_classes :: "control \<Rightarrow> string list" where
  "button_classes RemoveWidgetButton =
     [''w-full'', ''px-4'', ''py-2'', ''text-left'', ''text-sm'', ''text-red-600'',
      ''dark:text-red-400'', ''hover:bg-gray-100'', ''dark:hover:bg-gray-700'', ''flex'',
      ''items-center'', ''gap-2'']"
| "button_classes b =
     [''w-full'', ''px-4'', ''py-2'', ''text-left'', ''text-sm'', ''text-gray-700'',
      ''dark:text-gray-300'', ''hover:bg-gray-100'', ''dark:hover:bg-gray-700'', ''flex'',
      ''items-center'', ''gap-2'']"

text \<open>
  Where a click lands: on a button of this menu (on the button itself or on the icon
  inside it), on the menu's own root element, or on an element that is not part of this
  menu. In the last case the click carries the class lists of the target and of its
  ancestors, the target first.
\<close>

datatype click_target =
    OnButton control bool
  | OnMenu
  | Elsewhere "string list list"

text \<open>
  The class lists that \<^verbatim>\<open>closest\<close> visits from the target upwards. For a target inside the
  menu the walk stops at the menu's root at the latest, so the ancestors above the root
  are left out.
\<close>

fun class_chain :: "click_target \<Rightarrow> string list list" where
  "class_chain (OnButton b on_icon) =
     (if on_icon then [[''w-4'', ''h-4'']] else []) @ [button_classes b, menu_classes]"
| "class_chain OnMenu = [menu_classes]"
| "class_chain (Elsewhere chain) = chain"

text \<open>\<^verbatim>\<open>target.closest('.cls')\<close>: the first element, from the target upwards, with that class.\<close>

definition closest :: "string \<Rightarrow> string list list \<Rightarrow> string list option" where
  "closest cls chain = find (\<lambda>classes. cls \<in> set classes) chain"

text \<open>
  The document-level listener (lines 24-29) and the \<^verbatim>\<open>onClick\<close> of a button (lines 46-50,
  59-63, 72-76). Both return the callbacks they invoke, in order.
\<close>

definition handleClickOutside :: "'f ContextMenuProps \<Rightarrow> string list list \<Rightarrow> 'f list" where
  "handleClickOutside p chain =
     (if closest ''context-menu'' chain = None then [onClose p] else [])"

definition button_onClick :: "'f ContextMenuProps \<Rightarrow> 'f \<Rightarrow> 'f list" where
  "button_onClick p f = [f, onClose p]"

text \<open>
  One click. A button that is not rendered cannot be clicked. After the button's handler
  has called \<^verbatim>\<open>e.stopPropagation()\<close>, whether the document listener still sees the event
  depends on where the UI library attaches its own listener; \<open>reaches_document\<close> covers
  both cases. A click elsewhere is taken to reach the document.
\<close>

fun click :: "bool \<Rightarrow> 'f ContextMenuProps \<Rightarrow> click_target \<Rightarrow> 'f list" where
  "click reaches_document p (OnButton b on_icon) =
     (case map_of (render_menu p) b of
        None \<Rightarrow> []
      | Some f \<Rightarrow>
          button_onClick p f @
          (if reaches_document then handleClickOutside p (class_chain (OnButton b on_icon))
           else []))"
| "click reaches_document p OnMenu = handleClickOutside p (class_chain OnMenu)"
| "click reaches_document p (Elsewhere chain) = handleClickOutside p chain"

section \<open>Properties of the Settings view\<close>

subsection \<open>What the steps leave unchanged\<close>

lemma run_callback_keeps:
  "personalInfo (run_callback throws f s) = personalInfo s"
  "apiConfig (run_callback throws f s) = apiConfig s"
  "saveTimeout (run_callback throws f s) = saveTimeout s"
  "clock (run_callback throws f s) = clock s"
  by (cases f; simp add: Let_def setTimeout_def)+

lemma resume_save_keeps:
  "personalInfo (resume_save throws i s) = personalInfo s"
  "apiConfig (resume_save throws i s) = apiConfig s"
  "saveTimeout (resume_save throws i s) = saveTimeout s"
  "clock (resume_save throws i s) = clock s"
  by (simp_all add: resume_save_def Let_def setTimeout_def split: save_stage.splits)

lemma fold_callbacks_keeps:
  "personalInfo (fold (\<lambda>t. run_callback throws (cb t)) ts s) = personalInfo s"
  "apiConfig (fold (\<lambda>t. run_callback throws (cb t)) ts s) = apiConfig s"
  "saveTimeout (fold (\<lambda>t. run_callback throws (cb t)) ts s) = saveTimeout s"
  "clock (fold (\<lambda>t. run_callback throws (cb t)) ts s) = clock s"
  by (induction ts arbitrary: s; simp add: run_callback_keeps)+

lemma tick_keeps:
  "personalInfo (tick throws s) = personalInfo s"
  "apiConfig (tick throws s) = apiConfig s"
  "saveTimeout (tick throws s) = saveTimeout s"
  "clock (tick throws s) = Suc (clock s)"
  by (simp_all add: tick_def Let_def fold_callbacks_keeps)

lemma advance_keeps:
  "personalInfo (advance throws d s) = personalInfo s"
  "apiConfig (advance throws d s) = apiConfig s"
  "saveTimeout (advance throws d s) = saveTimeout s"
  "clock (advance throws d s) = clock s + d"
  by (induction d arbitrary: s; simp add: tick_keeps)+

lemma clear_saveTimeout_fields:
  "personalInfo (clear_saveTimeout s) = personalInfo s"
  "apiConfig (clear_saveTimeout s) = apiConfig s"
  "db_calls (clear_saveTimeout s) = db_calls s"
  "clock (clear_saveTimeout s) = clock s"
  "next_timer (clear_saveTimeout s) = next_timer s"
  "saveTimeout (clear_saveTimeout s) = saveTimeout s"
  by (simp_all add: clear_saveTimeout_def clearTimeout_def split: option.splits)

lemma autoSaveEffect_fields:
  "personalInfo (autoSaveEffect s) = personalInfo s"
  "apiConfig (autoSaveEffect s) = apiConfig s"
  "db_calls (autoSaveEffect s) = db_calls s"
  "clock (autoSaveEffect s) = clock s"
  "next_timer (autoSaveEffect s) = Suc (next_timer s)"
  "saveTimeout (autoSaveEffect s) = Some (next_timer s)"
  by (simp_all add: autoSaveEffect_def setTimeout_def Let_def clear_saveTimeout_fields)

lemma rerender_keeps:
  "personalInfo (rerender s) = personalInfo s"
  "apiConfig (rerender s) = apiConfig s"
  "db_calls (rerender s) = db_calls s"
  "clock (rerender s) = clock s"
  by (simp_all add: rerender_def autoSaveCleanup_def autoSaveEffect_fields
      clear_saveTimeout_fields)

lemma edit_state_keeps:
  "db_calls (edit_state e s) = db_calls s"
  "clock (edit_state e s) = clock s"
  "timers (edit_state e s) = timers s"
  "next_timer (edit_state e s) = next_timer s"
  "saveTimeout (edit_state e s) = saveTimeout s"
  by (cases e; simp)+

subsection \<open>The timer invariant\<close>

lemma timers_clear_saveTimeout:
  "timers (clear_saveTimeout s) =
     (case saveTimeout s of None \<Rightarrow> timers s
      | Some i \<Rightarrow> if i \<noteq> 0 then filter (\<lambda>t. tid t \<noteq> i) (timers s) else timers s)"
  by (simp add: clear_saveTimeout_def clearTimeout_def split: option.splits)

lemma pending_saves_clear:
  assumes "timers_ok s"
  shows "pending_saves (clear_saveTimeout s) = []"
proof -
  have a: "\<forall>t \<in> set (timers s). cb t \<noteq> ResetStatusCb \<longrightarrow> saveTimeout s = Some (tid t) \<and> 0 < tid t"
    using assms by (auto simp: timers_ok_def pending_saves_def list_all_iff)
  show ?thesis
    unfolding pending_saves_def timers_clear_saveTimeout
    using a by (auto simp: filter_empty_conv split: option.splits)
qed

lemma timers_ok_clear:
  assumes "timers_ok s"
  shows "timers_ok (clear_saveTimeout s)"
  using assms
  by (auto simp: timers_ok_def pending_saves_def clear_saveTimeout_fields timers_clear_saveTimeout
      list_all_iff distinct_map_filter split: option.splits)

lemma timers_autoSaveEffect:
  "timers (autoSaveEffect s) =
     timers (clear_saveTimeout s) @
       [\<lparr>tid = next_timer s, due = clock s + 600, cb = SaveCb (personalInfo s) (apiConfig s)\<rparr>]"
  by (simp add: autoSaveEffect_def setTimeout_def Let_def clear_saveTimeout_fields)

lemma pending_saves_effect:
  assumes "timers_ok s"
  shows "pending_saves (autoSaveEffect s) =
     [\<lparr>tid = next_timer s, due = clock s + 600, cb = SaveCb (personalInfo s) (apiConfig s)\<rparr>]"
  using pending_saves_clear [OF assms]
  by (simp add: pending_saves_def timers_autoSaveEffect)

lemma timers_ok_effect:
  assumes "timers_ok s"
  shows "timers_ok (autoSaveEffect s)"
proof -
  have c: "timers_ok (clear_saveTimeout s)" by (rule timers_ok_clear [OF assms])
  have p: "pending_saves (autoSaveEffect s) =
     [\<lparr>tid = next_timer s, due = clock s + 600, cb = SaveCb (personalInfo s) (apiConfig s)\<rparr>]"
    by (rule pending_saves_effect [OF assms])
  show ?thesis
    unfolding timers_ok_def p
    using c
    by (auto simp: timers_ok_def timers_autoSaveEffect autoSaveEffect_fields
        clear_saveTimeout_fields list_all_iff)
qed

lemma timers_ok_rerender: "timers_ok s \<Longrightarrow> timers_ok (rerender s)"
  by (simp add: rerender_def autoSaveCleanup_def timers_ok_effect timers_ok_clear)

lemma pending_saves_rerender:
  assumes "timers_ok s"
  shows "pending_saves (rerender s) =
     [\<lparr>tid = next_timer s, due = clock s + 600, cb = SaveCb (personalInfo s) (apiConfig s)\<rparr>]"
  using pending_saves_effect [OF timers_ok_clear [OF assms]]
  by (simp add: rerender_def autoSaveCleanup_def clear_saveTimeout_fields)

lemma timers_ok_state_update:
  "timers_ok (s\<lparr>personalInfo := p\<rparr>) = timers_ok s"
  "timers_ok (s\<lparr>apiConfig := c\<rparr>) = timers_ok s"
  "timers_ok (s\<lparr>theme_calls := th\<rparr>) = timers_ok s"
  "timers_ok (s\<lparr>showApiKey := b\<rparr>) = timers_ok s"
  by (simp_all add: timers_ok_def pending_saves_def)

lemma timers_ok_edit_state: "timers_ok s \<Longrightarrow> timers_ok (edit_state e s)"
  by (cases e) (simp_all add: timers_ok_state_update)

lemma timers_ok_run_callback: "timers_ok s \<Longrightarrow> timers_ok (run_callback throws f s)"
  by (cases f) (auto simp: timers_ok_def pending_saves_def setTimeout_def Let_def list_all_iff)

lemma timers_ok_resume_save: "timers_ok s \<Longrightarrow> timers_ok (resume_save throws i s)"
  by (auto simp: resume_save_def timers_ok_def pending_saves_def setTimeout_def Let_def
      list_all_iff split: save_stage.splits)

lemma timers_ok_fold:
  "timers_ok s \<Longrightarrow> timers_ok (fold (\<lambda>t. run_callback throws (cb t)) ts s)"
  by (induction ts arbitrary: s) (simp_all add: timers_ok_run_callback)

lemma timers_ok_tick:
  assumes "timers_ok s"
  shows "timers_ok (tick throws s)"
proof -
  have "timers_ok (s\<lparr>clock := Suc (clock s),
          timers := filter (\<lambda>t. \<not> due t \<le> Suc (clock s)) (timers s)\<rparr>)"
    using assms by (auto simp: timers_ok_def pending_saves_def list_all_iff distinct_map_filter)
  then show ?thesis
    by (simp add: tick_def Let_def timers_ok_fold)
qed

lemma timers_ok_advance: "timers_ok s \<Longrightarrow> timers_ok (advance throws d s)"
  by (induction d arbitrary: s) (simp_all add: timers_ok_tick)

lemma timers_ok_initial: "timers_ok (initial tz)"
  by (simp add: timers_ok_def initial_def pending_saves_def)

lemma timers_ok_mount: "timers_ok (mount tz)"
  by (simp add: mount_def timers_ok_effect timers_ok_initial)

lemma timers_ok_loadSettings:
  assumes "timers_ok s"
  shows "timers_ok (loadSettings sp sc s)"
  using assms
  by (cases sp; cases sc)
     (simp_all add: loadSettings_def timers_ok_rerender timers_ok_state_update)

lemma timers_ok_handle_event: "timers_ok s \<Longrightarrow> timers_ok (handle_event throws ev s)"
  by (cases ev)
     (simp_all add: apply_edit_def timers_ok_rerender timers_ok_edit_state
        timers_ok_loadSettings timers_ok_state_update timers_ok_resume_save)

lemma timers_ok_run: "timers_ok s \<Longrightarrow> timers_ok (run throws s evs)"
  by (induction evs arbitrary: s) (auto simp: timers_ok_handle_event timers_ok_advance)

lemma one_pending:
  assumes "timers_ok s"
  shows "length (pending_saves s) \<le> 1"
proof -
  have d: "distinct (map tid (pending_saves s))"
    using assms by (simp add: timers_ok_def pending_saves_def distinct_map_filter)
  have e: "\<forall>t \<in> set (pending_saves s). Some (tid t) = saveTimeout s"
    using assms by (auto simp: timers_ok_def list_all_iff)
  show ?thesis
  proof (cases "pending_saves s")
    case Nil
    then show ?thesis by simp
  next
    case (Cons a as)
    show ?thesis
    proof (cases as)
      case Nil
      with \<open>pending_saves s = a # as\<close> show ?thesis by simp
    next
      case (Cons b bs)
      from e \<open>pending_saves s = a # as\<close> Cons have "Some (tid a) = Some (tid b)"
        by simp
      with d \<open>pending_saves s = a # as\<close> Cons have False by simp
      then show ?thesis ..
    qed
  qed
qed

subsection \<open>Claims about the Settings view\<close>

text \<open>
  Claim C2. In every state reachable from mount by a timed sequence of events (edits,
  the toggle of the key visibility, the resolution of the load, the settling of a write),
  at most one save timer is live, a live save timer is the one stored in the
  \<^verbatim>\<open>saveTimeout\<close> ref, and the effect cleanup leaves no save timer live.
\<close>

theorem single_pending_save:
  "length (pending_saves (run throws (mount tz) evs)) \<le> 1 \<and>
   list_all (\<lambda>t. saveTimeout (run throws (mount tz) evs) = Some (tid t))
     (pending_saves (run throws (mount tz) evs)) \<and>
   pending_saves (autoSaveCleanup (run throws (mount tz) evs)) = []"
proof -
  have ok: "timers_ok (run throws (mount tz) evs)"
    by (rule timers_ok_run [OF timers_ok_mount])
  show ?thesis
    using one_pending [OF ok] pending_saves_clear [OF ok] ok
    by (simp add: autoSaveCleanup_def timers_ok_def)
qed

text \<open>
  Claim C3. When \<^verbatim>\<open>getPersonalInfo\<close> returns absent, the personal info after the load
  (whenever it resolves, whatever \<^verbatim>\<open>getAPIConfig\<close> returned) is the built-in default:
  empty name, email and avatar URL, the timezone of the runtime environment and the theme
  preference \<^verbatim>\<open>system\<close>.
\<close>

theorem load_absent_personalInfo:
  "personalInfo (loadSettings None savedApiConfig (advance throws d (mount tz))) =
     \<lparr>name = '''', email = '''', avatar_url = '''', timezone = tz, theme_preference = system\<rparr>"
  by (cases savedApiConfig)
     (simp_all add: loadSettings_def rerender_keeps advance_keeps mount_def
        autoSaveEffect_fields initial_def)

text \<open>
  Claim C4, as amended. When \<^verbatim>\<open>getAPIConfig\<close> returns a record, the API configuration
  after the load is that record with \<^verbatim>\<open>openai_base_url\<close> replaced by
  \<^verbatim>\<open>https://api.openai.com/v1\<close> if it was empty; a record with a non-empty
  \<^verbatim>\<open>openai_base_url\<close> is installed unchanged.
\<close>

theorem load_present_apiConfig:
  "apiConfig (loadSettings savedPersonalInfo (Some c) (advance throws d (mount tz))) =
     (if openai_base_url c = '''' then c\<lparr>openai_base_url := ''https://api.openai.com/v1''\<rparr>
      else c)"
  by (simp add: loadSettings_def rerender_keeps Let_def split: option.splits)

text \<open>
  Claim C4 as stated fails: a stored record whose \<^verbatim>\<open>openai_base_url\<close> is the empty string
  is not installed unchanged.
\<close>

theorem load_present_apiConfig_counterexample:
  "apiConfig (loadSettings None
      (Some \<lparr>ollama_base_url = ''http://localhost:11434'', comfyui_base_url = '''',
             openai_api_key = '''', openai_base_url = '''', api_type = ollama,
             n8n_base_url = None, n8n_api_key = None\<rparr>) (mount ''UTC''))
   \<noteq> \<lparr>ollama_base_url = ''http://localhost:11434'', comfyui_base_url = '''',
        openai_api_key = '''', openai_base_url = '''', api_type = ollama,
        n8n_base_url = None, n8n_api_key = None\<rparr>"
  by (simp add: loadSettings_def rerender_keeps)

text \<open>
  Claim C10. When \<^verbatim>\<open>getAPIConfig\<close> returns absent, the API configuration after the load is
  the initial one: type \<^verbatim>\<open>ollama\<close>, four empty strings, and the two n8n fields unset.
\<close>

theorem load_absent_apiConfig:
  "apiConfig (loadSettings savedPersonalInfo None (advance throws d (mount tz))) =
     \<lparr>ollama_base_url = '''', comfyui_base_url = '''', openai_api_key = '''',
      openai_base_url = '''', api_type = ollama, n8n_base_url = None, n8n_api_key = None\<rparr>"
  by (cases savedPersonalInfo)
     (simp_all add: loadSettings_def rerender_keeps advance_keeps mount_def
        autoSaveEffect_fields initial_def)

lemma apiConfig_toggle:
  "apiConfig (apply_edit (SetApiType t) s) = (apiConfig s)\<lparr>api_type := t\<rparr>"
  by (simp add: apply_edit_def rerender_keeps)

lemma apiConfig_toggles:
  "apiConfig (run throws s (map (\<lambda>(gap, t). (gap, Edit (SetApiType t))) toggles)) =
     (apiConfig s)\<lparr>api_type := last (api_type (apiConfig s) # map snd toggles)\<rparr>"
proof (induction toggles arbitrary: s)
  case Nil
  show ?case by simp
next
  case (Cons gt toggles)
  obtain gap t where gt: "gt = (gap, t)" by (cases gt)
  show ?case
    by (simp add: gt Cons.IH apiConfig_toggle advance_keeps)
qed

text \<open>
  Claim C5. From any state, after any timed sequence of clicks on the two API type
  buttons, the six other fields of the API configuration have their previous values, and
  the API type is the one chosen last.
\<close>

theorem api_type_toggle_frame:
  "ollama_base_url (apiConfig (run throws s (map (\<lambda>(gap, t). (gap, Edit (SetApiType t))) toggles)))
     = ollama_base_url (apiConfig s) \<and>
   comfyui_base_url (apiConfig (run throws s (map (\<lambda>(gap, t). (gap, Edit (SetApiType t))) toggles)))
     = comfyui_base_url (apiConfig s) \<and>
   openai_api_key (apiConfig (run throws s (map (\<lambda>(gap, t). (gap, Edit (SetApiType t))) toggles)))
     = openai_api_key (apiConfig s) \<and>
   openai_base_url (apiConfig (run throws s (map (\<lambda>(gap, t). (gap, Edit (SetApiType t))) toggles)))
     = openai_base_url (apiConfig s) \<and>
   n8n_base_url (apiConfig (run throws s (map (\<lambda>(gap, t). (gap, Edit (SetApiType t))) toggles)))
     = n8n_base_url (apiConfig s) \<and>
   n8n_api_key (apiConfig (run throws s (map (\<lambda>(gap, t). (gap, Edit (SetApiType t))) toggles)))
     = n8n_api_key (apiConfig s) \<and>
   api_type (apiConfig (run throws s (map (\<lambda>(gap, t). (gap, Edit (SetApiType t))) toggles)))
     = last (api_type (apiConfig s) # map snd toggles)"
  unfolding apiConfig_toggles by simp

text \<open>
  Claim C6. For every API configuration the Ollama group is rendered exactly when the type
  is \<^verbatim>\<open>ollama\<close>, the OpenAI group (base URL and key) exactly when the type is \<^verbatim>\<open>openai\<close>,
  and exactly one of the two is rendered.
\<close>

theorem one_api_group:
  "([OllamaBaseUrl] \<in> set (api_section c)) = (api_type c = ollama) \<and>
   ([OpenAIBaseUrl, OpenAIApiKey] \<in> set (api_section c)) = (api_type c = openai) \<and>
   ([OllamaBaseUrl] \<in> set (api_section c)) \<noteq>
     ([OpenAIBaseUrl, OpenAIApiKey] \<in> set (api_section c))"
  by (cases "api_type c") (simp_all add: api_section_def)



subsection \<open>The debounce\<close>

lemma in_flight_keeps:
  "in_flight (rerender s) = in_flight s"
  "in_flight (edit_state e s) = in_flight s"
  "in_flight (clear_saveTimeout s) = in_flight s"
  "in_flight (autoSaveEffect s) = in_flight s"
proof -
  show c: "in_flight (clear_saveTimeout s) = in_flight s" for s
    by (simp add: clear_saveTimeout_def clearTimeout_def split: option.splits)
  show e: "in_flight (autoSaveEffect s) = in_flight s" for s
    by (simp add: autoSaveEffect_def setTimeout_def Let_def c)
  show "in_flight (rerender s) = in_flight s"
    by (simp add: rerender_def autoSaveCleanup_def c e)
  show "in_flight (edit_state e s) = in_flight s"
    by (cases e) simp_all
qed

lemma loadSettings_keeps:
  "db_calls (loadSettings sp sc s) = db_calls s"
  "in_flight (loadSettings sp sc s) = in_flight s"
  "clock (loadSettings sp sc s) = clock s"
  by (cases sp; cases sc; simp add: loadSettings_def rerender_keeps in_flight_keeps)+

lemma continues_only_start:
  "continues_only (snap_apiConfig ` set (in_flight s)) (db_calls s) s"
  unfolding continues_only_def by (auto intro: exI [of _ "[]"])

lemma continues_only_same:
  assumes "continues_only A base s" and "db_calls s' = db_calls s" and "in_flight s' = in_flight s"
  shows "continues_only A base s'"
  using assms by (simp add: continues_only_def)

lemma continues_only_resume:
  assumes "continues_only A base s"
  shows "continues_only A base (resume_save throws i s)"
proof (cases "i < length (in_flight s)")
  case False
  then show ?thesis using assms by (simp add: resume_save_def)
next
  case True
  let ?f = "in_flight s ! i"
  let ?others = "take i (in_flight s) @ drop (Suc i) (in_flight s)"
  from assms obtain cs where cs: "db_calls s = base @ map updateAPIConfig cs" "set cs \<subseteq> A"
    and fl: "snap_apiConfig ` set (in_flight s) \<subseteq> A"
    by (auto simp: continues_only_def)
  have fA: "snap_apiConfig ?f \<in> A"
    using True fl by (auto simp: image_subset_iff)
  have oth: "snap_apiConfig ` set ?others \<subseteq> A"
    using fl by (auto simp: image_subset_iff dest: in_set_takeD in_set_dropD)
  show ?thesis
  proof (cases "rejects ?f")
    case r: True
    show ?thesis
      unfolding continues_only_def
      using True r cs oth by (auto simp: resume_save_def Let_def)
  next
    case r: False
    show ?thesis
    proof (cases "stage ?f")
      case AwaitPersonalInfo
      have d: "db_calls (resume_save throws i s) =
          base @ map updateAPIConfig (cs @ [snap_apiConfig ?f])"
        using True r AwaitPersonalInfo cs by (simp add: resume_save_def Let_def)
      have "set (in_flight (resume_save throws i s)) \<subseteq>
          insert (?f\<lparr>stage := AwaitAPIConfig,
             rejects := throws (db_calls s) (updateAPIConfig (snap_apiConfig ?f))\<rparr>)
            (set (in_flight s))"
        using True r AwaitPersonalInfo
        by (simp add: resume_save_def Let_def set_update_subset_insert)
      then have i: "snap_apiConfig ` set (in_flight (resume_save throws i s)) \<subseteq> A"
        using fl fA by (auto simp: image_subset_iff)
      show ?thesis
        unfolding continues_only_def
        using d i cs(2) fA by (intro conjI exI [of _ "cs @ [snap_apiConfig ?f]"]) auto
    next
      case AwaitAPIConfig
      show ?thesis
        unfolding continues_only_def
        using True r AwaitAPIConfig cs oth
        by (auto simp: resume_save_def Let_def setTimeout_def)
    qed
  qed
qed

lemma pending_saves_resume: "pending_saves (resume_save throws i s) = pending_saves s"
  by (simp add: resume_save_def pending_saves_def Let_def setTimeout_def
      split: save_stage.splits)

lemma continues_only_event:
  assumes "continues_only A base s"
  shows "continues_only A base (handle_event throws ev s)"
proof (cases ev)
  case (Edit e)
  show ?thesis
    by (rule continues_only_same [OF assms])
       (simp_all add: Edit apply_edit_def rerender_keeps in_flight_keeps edit_state_keeps)
next
  case ToggleShowApiKey
  show ?thesis
    by (rule continues_only_same [OF assms]) (simp_all add: ToggleShowApiKey)
next
  case (LoadSettings sp sc)
  show ?thesis
    by (rule continues_only_same [OF assms]) (simp_all add: LoadSettings loadSettings_keeps)
next
  case (Settle i)
  show ?thesis
    by (simp add: Settle continues_only_resume [OF assms])
qed

lemma fold_resets:
  assumes "list_all (\<lambda>t. cb t = ResetStatusCb) ts"
  shows "db_calls (fold (\<lambda>t. run_callback throws (cb t)) ts s) = db_calls s"
    and "timers (fold (\<lambda>t. run_callback throws (cb t)) ts s) = timers s"
    and "in_flight (fold (\<lambda>t. run_callback throws (cb t)) ts s) = in_flight s"
  using assms by (induction ts arbitrary: s; simp)+

lemma tick_quiet:
  assumes "list_all (\<lambda>t. Suc (clock s) < due t) (pending_saves s)"
  shows "db_calls (tick throws s) = db_calls s"
    and "in_flight (tick throws s) = in_flight s"
    and "pending_saves (tick throws s) = pending_saves s"
proof -
  let ?now = "Suc (clock s)"
  let ?ready = "filter (\<lambda>t. due t \<le> ?now) (timers s)"
  have late: "\<forall>t \<in> set (timers s). cb t \<noteq> ResetStatusCb \<longrightarrow> ?now < due t"
    using assms by (auto simp: pending_saves_def list_all_iff)
  then have r: "list_all (\<lambda>t. cb t = ResetStatusCb) ?ready"
    by (auto simp: list_all_iff)
  show "db_calls (tick throws s) = db_calls s"
    by (simp add: tick_def Let_def fold_resets [OF r])
  show "in_flight (tick throws s) = in_flight s"
    by (simp add: tick_def Let_def fold_resets [OF r])
  have "timers (tick throws s) = filter (\<lambda>t. \<not> due t \<le> ?now) (timers s)"
    by (simp add: tick_def Let_def fold_resets [OF r])
  then have "pending_saves (tick throws s) =
      filter (\<lambda>t. cb t \<noteq> ResetStatusCb \<and> \<not> due t \<le> ?now) (timers s)"
    by (simp add: pending_saves_def conj_commute)
  also have "\<dots> = pending_saves s"
    unfolding pending_saves_def using late by (intro filter_cong) auto
  finally show "pending_saves (tick throws s) = pending_saves s" .
qed

lemma advance_quiet:
  assumes "list_all (\<lambda>t. clock s + d < due t) (pending_saves s)"
  shows "db_calls (advance throws d s) = db_calls s \<and>
         in_flight (advance throws d s) = in_flight s \<and>
         pending_saves (advance throws d s) = pending_saves s"
  using assms
proof (induction d arbitrary: s)
  case 0
  show ?case by simp
next
  case (Suc d)
  have q: "list_all (\<lambda>t. Suc (clock s) < due t) (pending_saves s)"
    using Suc.prems by (auto simp: list_all_iff)
  have "list_all (\<lambda>t. clock (tick throws s) + d < due t) (pending_saves (tick throws s))"
    using Suc.prems by (simp add: tick_quiet [OF q] tick_keeps)
  from Suc.IH [OF this] show ?case
    by (simp add: tick_quiet [OF q])
qed

lemma fold_one_save:
  assumes "filter (\<lambda>t. cb t \<noteq> ResetStatusCb) ts = [t]" and "cb t = SaveCb p c"
  shows "db_calls (fold (\<lambda>t. run_callback throws (cb t)) ts s) =
           db_calls s @ [updatePersonalInfo p] \<and>
         in_flight (fold (\<lambda>t. run_callback throws (cb t)) ts s) =
           in_flight s @
             [\<lparr>stage = AwaitPersonalInfo, snap_personalInfo = p, snap_apiConfig = c,
               rejects = throws (db_calls s) (updatePersonalInfo p)\<rparr>]"
  using assms(1)
proof (induction ts arbitrary: s)
  case Nil
  then show ?case by simp
next
  case (Cons x xs)
  show ?case
  proof (cases "cb x = ResetStatusCb")
    case True
    with Cons.prems have "filter (\<lambda>t. cb t \<noteq> ResetStatusCb) xs = [t]" by simp
    from Cons.IH [OF this] True show ?thesis by simp
  next
    case False
    with Cons.prems have x: "x = t" and "filter (\<lambda>t. cb t \<noteq> ResetStatusCb) xs = []"
      by simp_all
    then have "list_all (\<lambda>t. cb t = ResetStatusCb) xs"
      by (auto simp: filter_empty_conv list_all_iff)
    then show ?thesis
      by (simp add: fold_resets x assms(2))
  qed
qed

lemma fold_callbacks_timers:
  "timers (fold (\<lambda>t. run_callback throws (cb t)) ts s) = timers s"
proof (induction ts arbitrary: s)
  case Nil
  show ?case by simp
next
  case (Cons x xs)
  have "timers (run_callback throws (cb x) s) = timers s"
    by (cases "cb x") simp_all
  with Cons.IH show ?case by simp
qed

lemma tick_timers:
  "timers (tick throws s) = filter (\<lambda>t. \<not> due t \<le> Suc (clock s)) (timers s)"
  by (simp add: tick_def Let_def fold_callbacks_timers)

lemma tick_fire:
  assumes "pending_saves s = [t]" and "due t = Suc (clock s)" and "cb t = SaveCb p c"
  shows "db_calls (tick throws s) = db_calls s @ [updatePersonalInfo p] \<and>
         in_flight (tick throws s) =
           in_flight s @
             [\<lparr>stage = AwaitPersonalInfo, snap_personalInfo = p, snap_apiConfig = c,
               rejects = throws (db_calls s) (updatePersonalInfo p)\<rparr>] \<and>
         pending_saves (tick throws s) = []"
proof -
  let ?now = "Suc (clock s)"
  have "filter (\<lambda>t. cb t \<noteq> ResetStatusCb) (filter (\<lambda>t. due t \<le> ?now) (timers s)) =
        filter (\<lambda>t. due t \<le> ?now) (pending_saves s)"
    by (simp add: pending_saves_def conj_commute)
  also have "\<dots> = [t]"
    using assms(1,2) by simp
  finally have one: "filter (\<lambda>t. cb t \<noteq> ResetStatusCb)
      (filter (\<lambda>t. due t \<le> ?now) (timers s)) = [t]" .
  have "pending_saves (tick throws s) = filter (\<lambda>t. \<not> due t \<le> ?now) (pending_saves s)"
    by (simp add: pending_saves_def tick_timers conj_commute)
  then have none: "pending_saves (tick throws s) = []"
    using assms(1,2) by simp
  show ?thesis
    unfolding tick_def Let_def
    using fold_one_save [OF one assms(3), of throws
      "s\<lparr>clock := ?now, timers := filter (\<lambda>t. \<not> due t \<le> ?now) (timers s)\<rparr>"] none
    by (simp add: tick_def Let_def)
qed

lemma advance_add: "advance throws (a + b) s = advance throws b (advance throws a s)"
  by (induction a arbitrary: s) simp_all

lemma single_timerD:
  assumes "map (\<lambda>t. (due t, cb t)) ps = [(d, f)]"
  obtains t where "ps = [t]" and "due t = d" and "cb t = f"
  using assms by (cases ps) auto

lemma armed_after_rerender:
  assumes "timers_ok s"
  shows "map (\<lambda>t. (due t, cb t)) (pending_saves (rerender s)) =
     [(clock (rerender s) + 600, SaveCb (personalInfo (rerender s)) (apiConfig (rerender s)))]"
  using pending_saves_rerender [OF assms]
  by (simp add: rerender_keeps)

lemma armed_quiet:
  assumes "map (\<lambda>t. (due t, cb t)) (pending_saves s) = [(clock s + r, f)]" and "d < r"
  shows "db_calls (advance throws d s) = db_calls s"
    and "in_flight (advance throws d s) = in_flight s"
    and "pending_saves (advance throws d s) = pending_saves s"
proof -
  from assms(1) obtain t where t: "pending_saves s = [t]" "due t = clock s + r"
    by (rule single_timerD)
  with assms(2) have "list_all (\<lambda>t. clock s + d < due t) (pending_saves s)"
    by simp
  from advance_quiet [OF this]
  show "db_calls (advance throws d s) = db_calls s"
    and "in_flight (advance throws d s) = in_flight s"
    and "pending_saves (advance throws d s) = pending_saves s"
    by simp_all
qed

lemma armed_event:
  assumes "timers_ok s"
    and "map (\<lambda>t. (due t, cb t)) (pending_saves s) =
           [(clock s + r, SaveCb (personalInfo s) (apiConfig s))]"
  shows "map (\<lambda>t. (due t, cb t)) (pending_saves (handle_event throws ev s)) =
     [(clock (handle_event throws ev s) + (if rearms ev then 600 else r),
       SaveCb (personalInfo (handle_event throws ev s)) (apiConfig (handle_event throws ev s)))]"
proof (cases ev)
  case (Edit e)
  show ?thesis
    using armed_after_rerender [OF timers_ok_edit_state [OF assms(1), of e]]
    by (simp add: Edit apply_edit_def)
next
  case ToggleShowApiKey
  show ?thesis
    using assms(2) by (simp add: ToggleShowApiKey pending_saves_def)
next
  case (LoadSettings sp sc)
  show ?thesis
  proof (cases "sp = None \<and> sc = None")
    case True
    then show ?thesis
      using assms(2) by (simp add: LoadSettings loadSettings_def)
  next
    case False
    with assms(1) show ?thesis
      by (cases sp; cases sc)
         (simp_all add: LoadSettings loadSettings_def armed_after_rerender
            timers_ok_state_update)
  qed
next
  case (Settle i)
  show ?thesis
    using assms(2) by (simp add: Settle pending_saves_resume resume_save_keeps)
qed

lemma burst_quiet:
  assumes "timers_ok s"
    and "map (\<lambda>t. (due t, cb t)) (pending_saves s) =
           [(clock s + (600 - k), SaveCb (personalInfo s) (apiConfig s))]"
    and "k < 600"
    and "continues_only A base s"
    and "since_last_change k burst = Some k'"
  shows "timers_ok (run throws s burst) \<and>
     map (\<lambda>t. (due t, cb t)) (pending_saves (run throws s burst)) =
       [(clock (run throws s burst) + (600 - k'),
         SaveCb (personalInfo (run throws s burst)) (apiConfig (run throws s burst)))] \<and>
     k' < 600 \<and>
     continues_only A base (run throws s burst)"
  using assms
proof (induction burst arbitrary: s k)
  case Nil
  then show ?case by simp
next
  case (Cons ge burst)
  obtain gap ev where ge: "ge = (gap, ev)" by (cases ge)
  let ?a = "advance throws gap s"
  let ?s' = "handle_event throws ev ?a"
  let ?k = "if rearms ev then 0 else k + gap"
  from Cons.prems(5) have gap: "k + gap < 600" and rest: "since_last_change ?k burst = Some k'"
    by (simp_all add: ge split: if_splits)
  have gap': "gap < 600 - k" using gap by simp
  have ok: "timers_ok ?a"
    by (rule timers_ok_advance [OF Cons.prems(1)])
  have ok': "timers_ok ?s'"
    by (rule timers_ok_handle_event [OF ok])
  have arm_a: "map (\<lambda>t. (due t, cb t)) (pending_saves ?a) =
      [(clock ?a + (600 - (k + gap)), SaveCb (personalInfo ?a) (apiConfig ?a))]"
    using Cons.prems(2) gap
    by (simp add: armed_quiet(3) [OF Cons.prems(2) gap'] advance_keeps)
  have arm': "map (\<lambda>t. (due t, cb t)) (pending_saves ?s') =
      [(clock ?s' + (600 - ?k), SaveCb (personalInfo ?s') (apiConfig ?s'))]"
    using armed_event [OF ok arm_a, of throws ev] by simp
  have k: "?k < 600" using gap by simp
  have "continues_only A base ?a"
    by (rule continues_only_same [OF Cons.prems(4)])
       (simp_all add: armed_quiet(1,2) [OF Cons.prems(2) gap'])
  then have co: "continues_only A base ?s'"
    by (rule continues_only_event)
  from Cons.IH [OF ok' arm' k co rest]
  show ?case by (simp add: ge)
qed

lemma expiry:
  assumes "map (\<lambda>t. (due t, cb t)) (pending_saves s) = [(clock s + r, SaveCb p c)]"
    and "0 < r"
  shows "db_calls (advance throws r s) = db_calls s @ [updatePersonalInfo p] \<and>
         in_flight (advance throws r s) =
           in_flight s @
             [\<lparr>stage = AwaitPersonalInfo, snap_personalInfo = p, snap_apiConfig = c,
               rejects = throws (db_calls s) (updatePersonalInfo p)\<rparr>] \<and>
         pending_saves (advance throws r s) = []"
proof -
  let ?s' = "advance throws (r - 1) s"
  from assms(1) obtain t where t: "pending_saves s = [t]" "due t = clock s + r" "cb t = SaveCb p c"
    by (rule single_timerD)
  have lt: "r - 1 < r" using assms(2) by simp
  have q: "db_calls ?s' = db_calls s" "in_flight ?s' = in_flight s"
      "pending_saves ?s' = pending_saves s"
    using armed_quiet [OF assms(1) lt, of throws] by simp_all
  have d: "due t = Suc (clock ?s')"
    using assms(2) by (simp add: t advance_keeps)
  have "advance throws ((r - 1) + 1) s = tick throws ?s'"
    unfolding advance_add by simp
  then have "advance throws r s = tick throws ?s'"
    using assms(2) by simp
  then show ?thesis
    using tick_fire [of ?s' t p c throws] t q d by simp
qed

text \<open>
  Claim C1, as amended. Take any state reachable from mount, an edit made there, and any
  further events (edits, writes settling) each less than 600 ms after the latest edit.
  Every edit leaves exactly one save timer live: a new one, due 600 ms after that edit,
  closed over the two records as they are after it. No save starts before that timer
  expires: the writes made since the first edit are calls of \<^verbatim>\<open>updateAPIConfig\<close> that
  continue saves already suspended when the first edit was made, and there is no write at
  all when no save was suspended then. When the timer expires, \<^verbatim>\<open>updatePersonalInfo\<close> is
  called with the personal info as of the last edit, and when that write settles without
  throwing, \<^verbatim>\<open>updateAPIConfig\<close> is called with the API configuration as of the last edit.
\<close>

theorem debounce_last_snapshot:
  assumes "since_last_change 0 burst = Some k"
  shows "let s0 = run throws (mount tz) pre;
             s1 = apply_edit e0 s0;
             sN = run throws s1 burst;
             p = personalInfo sN;
             c = apiConfig sN;
             r = 600 - k;
             sF = advance throws r sN
         in map (\<lambda>t. (due t, cb t)) (pending_saves sN) = [(clock sN + r, SaveCb p c)] \<and>
            (\<exists>cs. db_calls sN = db_calls s0 @ map updateAPIConfig cs \<and>
                  set cs \<subseteq> snap_apiConfig ` set (in_flight s0)) \<and>
            (in_flight s0 = [] \<longrightarrow> db_calls sN = db_calls s0) \<and>
            (\<forall>d < r. db_calls (advance throws d sN) = db_calls sN) \<and>
            db_calls sF = db_calls sN @ [updatePersonalInfo p] \<and>
            in_flight sF =
              in_flight sN @
                [\<lparr>stage = AwaitPersonalInfo, snap_personalInfo = p, snap_apiConfig = c,
                  rejects = throws (db_calls sN) (updatePersonalInfo p)\<rparr>] \<and>
            (\<not> throws (db_calls sN) (updatePersonalInfo p) \<longrightarrow>
               db_calls (resume_save throws (length (in_flight sN)) sF) =
                 db_calls sN @ [updatePersonalInfo p, updateAPIConfig c])"
proof -
  define s0 where "s0 = run throws (mount tz) pre"
  define s1 where "s1 = apply_edit e0 s0"
  define sN where "sN = run throws s1 burst"
  define r where "r = 600 - k"
  define sF where "sF = advance throws r sN"
  define A where "A = snap_apiConfig ` set (in_flight s0)"
  have ok0: "timers_ok s0"
    unfolding s0_def by (rule timers_ok_run [OF timers_ok_mount])
  have ok1: "timers_ok s1"
    by (simp add: s1_def apply_edit_def timers_ok_rerender timers_ok_edit_state ok0)
  have a1: "map (\<lambda>t. (due t, cb t)) (pending_saves s1) =
      [(clock s1 + (600 - 0), SaveCb (personalInfo s1) (apiConfig s1))]"
    using armed_after_rerender [OF timers_ok_edit_state [OF ok0, of e0]]
    by (simp add: s1_def apply_edit_def)
  have co1: "continues_only A (db_calls s0) s1"
    unfolding A_def
    by (rule continues_only_same [OF continues_only_start])
       (simp_all add: s1_def apply_edit_def rerender_keeps in_flight_keeps edit_state_keeps)
  from burst_quiet [OF ok1 a1 _ co1 assms, of throws]
  have aN: "map (\<lambda>t. (due t, cb t)) (pending_saves sN) =
      [(clock sN + r, SaveCb (personalInfo sN) (apiConfig sN))]"
    and k: "k < 600"
    and coN: "continues_only A (db_calls s0) sN"
    by (simp_all add: sN_def r_def)
  have r: "0 < r" using k by (simp add: r_def)
  from coN have ex: "\<exists>cs. db_calls sN = db_calls s0 @ map updateAPIConfig cs \<and>
      set cs \<subseteq> snap_apiConfig ` set (in_flight s0)"
    by (simp add: continues_only_def A_def)
  then have none: "in_flight s0 = [] \<longrightarrow> db_calls sN = db_calls s0"
    by auto
  have quiet: "\<forall>d < r. db_calls (advance throws d sN) = db_calls sN"
    using armed_quiet(1) [OF aN] by simp
  from expiry [OF aN r, of throws]
  have fire: "db_calls sF = db_calls sN @ [updatePersonalInfo (personalInfo sN)]"
    and fl: "in_flight sF =
      in_flight sN @
        [\<lparr>stage = AwaitPersonalInfo, snap_personalInfo = personalInfo sN,
          snap_apiConfig = apiConfig sN,
          rejects = throws (db_calls sN) (updatePersonalInfo (personalInfo sN))\<rparr>]"
    by (simp_all add: sF_def)
  have second: "\<not> throws (db_calls sN) (updatePersonalInfo (personalInfo sN)) \<longrightarrow>
      db_calls (resume_save throws (length (in_flight sN)) sF) =
        db_calls sN @ [updatePersonalInfo (personalInfo sN), updateAPIConfig (apiConfig sN)]"
    by (simp add: resume_save_def Let_def fl fire nth_append)
  show ?thesis
    unfolding Let_def s0_def [symmetric] s1_def [symmetric] sN_def [symmetric]
      r_def [symmetric] sF_def [symmetric]
    using aN ex none quiet fire fl second by blast
qed

theorem debounce_last_snapshot_witness:
  "since_last_change 0 [(100, Edit (SetEmail ''a@b.com''))] = Some 0 \<and>
   db_calls (advance always_resolves 599
      (run always_resolves (apply_edit (SetName ''Ada'') (mount ''UTC''))
         [(100, Edit (SetEmail ''a@b.com''))])) = [] \<and>
   db_calls (resume_save always_resolves 0 (advance always_resolves 600
      (run always_resolves (apply_edit (SetName ''Ada'') (mount ''UTC''))
         [(100, Edit (SetEmail ''a@b.com''))]))) =
     [updatePersonalInfo \<lparr>name = ''Ada'', email = ''a@b.com'', avatar_url = '''',
        timezone = ''UTC'', theme_preference = system\<rparr>,
      updateAPIConfig \<lparr>ollama_base_url = '''', comfyui_base_url = '''', openai_api_key = '''',
        openai_base_url = '''', api_type = ollama, n8n_base_url = None, n8n_api_key = None\<rparr>]"
proof -
  define sN where "sN = run always_resolves (apply_edit (SetName ''Ada'') (mount ''UTC''))
         [(100, Edit (SetEmail ''a@b.com''))]"
  have h: "since_last_change 0 [(100, Edit (SetEmail ''a@b.com''))] = Some 0"
    by simp
  have m: "db_calls (mount ''UTC'') = []" "in_flight (mount ''UTC'') = []"
    by (simp_all add: mount_def autoSaveEffect_fields in_flight_keeps initial_def)
  have a: "\<not> always_resolves hist call" for hist call
    by (simp add: always_resolves_def)
  note t = debounce_last_snapshot [OF h, of always_resolves "''UTC''" "[]" "SetName ''Ada''"]
  have c0: "db_calls sN = []"
    and q: "\<forall>d<600. db_calls (advance always_resolves d sN) = db_calls sN"
    and fl: "in_flight (advance always_resolves 600 sN) =
      in_flight sN @
        [\<lparr>stage = AwaitPersonalInfo, snap_personalInfo = personalInfo sN,
          snap_apiConfig = apiConfig sN, rejects = False\<rparr>]"
    and f: "db_calls (resume_save always_resolves (length (in_flight sN))
              (advance always_resolves 600 sN)) =
      db_calls sN @ [updatePersonalInfo (personalInfo sN), updateAPIConfig (apiConfig sN)]"
    using t by (simp_all add: Let_def sN_def m a)
  have i0: "in_flight sN = []"
  proof -
    let ?s1 = "apply_edit (SetName ''Ada'') (mount ''UTC'')"
    have "map (\<lambda>t. (due t, cb t)) (pending_saves ?s1) =
        [(clock ?s1 + 600, SaveCb (personalInfo ?s1) (apiConfig ?s1))]"
      unfolding apply_edit_def
      by (rule armed_after_rerender [OF timers_ok_edit_state [OF timers_ok_mount]])
    from armed_quiet(2) [OF this, of 100 always_resolves]
    have "in_flight (advance always_resolves 100 ?s1) = in_flight ?s1"
      by simp
    then show ?thesis
      by (simp add: sN_def apply_edit_def in_flight_keeps m)
  qed
  have p: "personalInfo sN = \<lparr>name = ''Ada'', email = ''a@b.com'', avatar_url = '''',
        timezone = ''UTC'', theme_preference = system\<rparr>"
    by (simp add: sN_def apply_edit_def rerender_keeps advance_keeps mount_def
        autoSaveEffect_fields initial_def)
  have c: "apiConfig sN = \<lparr>ollama_base_url = '''', comfyui_base_url = '''',
        openai_api_key = '''', openai_base_url = '''', api_type = ollama,
        n8n_base_url = None, n8n_api_key = None\<rparr>"
    by (simp add: sN_def apply_edit_def rerender_keeps advance_keeps mount_def
        autoSaveEffect_fields initial_def)
  from q have q': "db_calls (advance always_resolves 599 sN) = []"
    by (simp add: c0)
  show ?thesis
    unfolding sN_def [symmetric]
    using h q' f p c c0 i0 by simp
qed

text \<open>
  Claim C1 as stated fails. The save armed at mount starts at 600 ms and is suspended at
  its first await. The user edits the Ollama URL at 700 ms and the name at 850 ms. The
  first write settles at 750 ms, between the two edits, and \<^verbatim>\<open>updateAPIConfig\<close> is called
  with the configuration closed over at mount, which is not the configuration as of the
  last edit.
\<close>

theorem debounce_stale_write_counterexample:
  "db_calls (run always_resolves (mount ''UTC'')
      [(700, Edit (SetOllamaBaseUrl ''http://localhost:11434''))]) =
     [updatePersonalInfo \<lparr>name = '''', email = '''', avatar_url = '''', timezone = ''UTC'',
        theme_preference = system\<rparr>] \<and>
   db_calls (run always_resolves (mount ''UTC'')
      [(700, Edit (SetOllamaBaseUrl ''http://localhost:11434'')),
       (50, Settle 0),
       (100, Edit (SetName ''Ada''))]) =
     [updatePersonalInfo \<lparr>name = '''', email = '''', avatar_url = '''', timezone = ''UTC'',
        theme_preference = system\<rparr>,
      updateAPIConfig \<lparr>ollama_base_url = '''', comfyui_base_url = '''', openai_api_key = '''',
        openai_base_url = '''', api_type = ollama, n8n_base_url = None, n8n_api_key = None\<rparr>] \<and>
   apiConfig (run always_resolves (mount ''UTC'')
      [(700, Edit (SetOllamaBaseUrl ''http://localhost:11434'')),
       (50, Settle 0),
       (100, Edit (SetName ''Ada''))]) =
     \<lparr>ollama_base_url = ''http://localhost:11434'', comfyui_base_url = '''',
      openai_api_key = '''', openai_base_url = '''', api_type = ollama,
      n8n_base_url = None, n8n_api_key = None\<rparr>"
proof -
  let ?a = always_resolves
  let ?P = "\<lparr>name = '''', email = '''', avatar_url = '''', timezone = ''UTC'',
        theme_preference = system\<rparr>"
  let ?C = "\<lparr>ollama_base_url = '''', comfyui_base_url = '''', openai_api_key = '''',
        openai_base_url = '''', api_type = ollama, n8n_base_url = None, n8n_api_key = None\<rparr>"
  define m where "m = mount ''UTC''"
  define s1 where "s1 = apply_edit (SetOllamaBaseUrl ''http://localhost:11434'')
      (advance ?a 100 (advance ?a 600 m))"
  define s2 where "s2 = resume_save ?a 0 (advance ?a 50 s1)"
  define s3 where "s3 = apply_edit (SetName ''Ada'') (advance ?a 100 s2)"
  have a: "\<not> always_resolves hist call" for hist call
    by (simp add: always_resolves_def)
  have m: "db_calls m = []" "in_flight m = []" "personalInfo m = ?P" "apiConfig m = ?C"
    by (simp_all add: m_def mount_def autoSaveEffect_fields in_flight_keeps initial_def)
  have okm: "timers_ok m"
    unfolding m_def by (rule timers_ok_mount)
  have "pending_saves m =
      [\<lparr>tid = next_timer (initial ''UTC''), due = clock (initial ''UTC'') + 600,
        cb = SaveCb (personalInfo (initial ''UTC'')) (apiConfig (initial ''UTC''))\<rparr>]"
    unfolding m_def mount_def by (rule pending_saves_effect [OF timers_ok_initial])
  then have am: "map (\<lambda>t. (due t, cb t)) (pending_saves m) = [(clock m + 600, SaveCb ?P ?C)]"
    by (simp add: m_def mount_def autoSaveEffect_fields initial_def)
  from expiry [OF am, of ?a]
  have f0: "db_calls (advance ?a 600 m) = [updatePersonalInfo ?P]"
    "in_flight (advance ?a 600 m) =
       [\<lparr>stage = AwaitPersonalInfo, snap_personalInfo = ?P, snap_apiConfig = ?C,
         rejects = False\<rparr>]"
    "pending_saves (advance ?a 600 m) = []"
    by (simp_all add: m a)
  have "list_all (\<lambda>t. clock (advance ?a 600 m) + 100 < due t) (pending_saves (advance ?a 600 m))"
    by (simp add: f0)
  from advance_quiet [OF this, of ?a]
  have f: "db_calls (advance ?a 100 (advance ?a 600 m)) = [updatePersonalInfo ?P]"
    "in_flight (advance ?a 100 (advance ?a 600 m)) =
       [\<lparr>stage = AwaitPersonalInfo, snap_personalInfo = ?P, snap_apiConfig = ?C,
         rejects = False\<rparr>]"
    by (simp_all add: f0)
  have split: "advance ?a 700 m = advance ?a 100 (advance ?a 600 m)"
    using advance_add [of ?a 600 100 m] by simp
  have c1: "db_calls s1 = [updatePersonalInfo ?P]"
    and i1: "in_flight s1 =
       [\<lparr>stage = AwaitPersonalInfo, snap_personalInfo = ?P, snap_apiConfig = ?C,
         rejects = False\<rparr>]"
    by (simp_all add: s1_def apply_edit_def rerender_keeps in_flight_keeps edit_state_keeps f)
  have ok1: "timers_ok s1"
    unfolding s1_def apply_edit_def
    by (intro timers_ok_rerender timers_ok_edit_state timers_ok_advance okm)
  have a1: "map (\<lambda>t. (due t, cb t)) (pending_saves s1) =
      [(clock s1 + 600, SaveCb (personalInfo s1) (apiConfig s1))]"
    unfolding s1_def apply_edit_def
    by (intro armed_after_rerender timers_ok_edit_state timers_ok_advance okm)
  have q1: "db_calls (advance ?a 50 s1) = db_calls s1"
    "in_flight (advance ?a 50 s1) = in_flight s1"
    using armed_quiet(1,2) [OF a1, of 50 ?a] by simp_all
  have c2: "db_calls s2 = [updatePersonalInfo ?P, updateAPIConfig ?C]"
    by (simp add: s2_def resume_save_def Let_def q1 c1 i1 a)
  have a1': "map (\<lambda>t. (due t, cb t)) (pending_saves (advance ?a 50 s1)) =
      [(clock (advance ?a 50 s1) + 550,
        SaveCb (personalInfo (advance ?a 50 s1)) (apiConfig (advance ?a 50 s1)))]"
    using a1 armed_quiet(3) [OF a1, of 50 ?a] by (simp add: advance_keeps)
  have a2: "map (\<lambda>t. (due t, cb t)) (pending_saves s2) =
      [(clock s2 + 550, SaveCb (personalInfo s2) (apiConfig s2))]"
    using armed_event [OF timers_ok_advance [OF ok1] a1', of ?a "Settle 0"]
    by (simp add: s2_def)
  have c3: "db_calls s3 = [updatePersonalInfo ?P, updateAPIConfig ?C]"
    using armed_quiet(1) [OF a2, of 100 ?a]
    by (simp add: s3_def apply_edit_def rerender_keeps edit_state_keeps c2)
  have g3: "apiConfig s3 = ?C\<lparr>ollama_base_url := ''http://localhost:11434''\<rparr>"
    by (simp add: s3_def s2_def s1_def apply_edit_def rerender_keeps advance_keeps
        resume_save_keeps m)
  have r1: "run ?a (mount ''UTC'') [(700, Edit (SetOllamaBaseUrl ''http://localhost:11434''))] = s1"
    by (simp add: s1_def m_def split [unfolded m_def])
  have r3: "run ?a (mount ''UTC'')
      [(700, Edit (SetOllamaBaseUrl ''http://localhost:11434'')), (50, Settle 0),
       (100, Edit (SetName ''Ada''))] = s3"
    by (simp add: s3_def s2_def s1_def m_def split [unfolded m_def])
  show ?thesis
    unfolding r1 r3 using c1 c3 g3 by simp
qed

section \<open>Properties of the widget context menu\<close>

lemma fst_render_menu:
  "map fst (render_menu p) =
     (if onAddWidget p = None then [] else [AddWidgetButton]) @
     (if onRearrangeWidgets p = None then [] else [RearrangeWidgetsButton]) @
     (if show_remove p \<and> onRemoveWidget p \<noteq> None then [RemoveWidgetButton] else [])"
  by (cases "onAddWidget p"; cases "onRearrangeWidgets p"; cases "onRemoveWidget p";
      cases "show_remove p") (simp_all add: render_menu_def)

lemma distinct_render_menu: "distinct (map fst (render_menu p))"
  unfolding fst_render_menu by simp

lemma handleClickOutside_in_menu:
  "handleClickOutside p (class_chain (OnButton b on_icon)) = []"
  by (cases b) (simp_all add: handleClickOutside_def closest_def menu_classes_def)

text \<open>
  Claim C8, as amended. A click on a rendered button invokes the callback bound to it and
  then \<^verbatim>\<open>onClose\<close>, each once and nothing else, whether or not the event still reaches the
  document listener. A click on a target that has no element of class \<^verbatim>\<open>context-menu\<close>
  among itself and its ancestors invokes \<^verbatim>\<open>onClose\<close> once and no action callback.
\<close>

theorem menu_click:
  "((b, f) \<in> set (render_menu p) \<longrightarrow>
      click reaches_document p (OnButton b on_icon) = [f, onClose p]) \<and>
   (closest ''context-menu'' chain = None \<longrightarrow>
      click reaches_document p (Elsewhere chain) = [onClose p])"
proof (intro conjI impI)
  assume "(b, f) \<in> set (render_menu p)"
  then have "map_of (render_menu p) b = Some f"
    using distinct_render_menu [of p] by simp
  then show "click reaches_document p (OnButton b on_icon) = [f, onClose p]"
    by (simp add: button_onClick_def handleClickOutside_in_menu del: class_chain.simps)
next
  assume "closest ''context-menu'' chain = None"
  then show "click reaches_document p (Elsewhere chain) = [onClose p]"
    by (simp add: handleClickOutside_def)
qed

theorem menu_click_witness:
  "click False \<lparr>menu_x = 10, menu_y = 20, onClose = ''close'', onAddWidget = Some ''add'',
       onRemoveWidget = None, onRearrangeWidgets = None, showRemove = None\<rparr>
     (OnButton AddWidgetButton True) = [''add'', ''close''] \<and>
   click False \<lparr>menu_x = 10, menu_y = 20, onClose = ''close'', onAddWidget = Some ''add'',
       onRemoveWidget = None, onRearrangeWidgets = None, showRemove = None\<rparr>
     (Elsewhere [[''glassmorphic''], [''max-w-4xl'', ''mx-auto'']]) = [''close'']"
proof -
  let ?p = "\<lparr>menu_x = 10, menu_y = 20, onClose = ''close'', onAddWidget = Some ''add'',
       onRemoveWidget = None, onRearrangeWidgets = None, showRemove = None\<rparr>"
  have r: "(AddWidgetButton, ''add'') \<in> set (render_menu ?p)"
    by (simp add: render_menu_def show_remove_def)
  have c: "closest ''context-menu'' [[''glassmorphic''], [''max-w-4xl'', ''mx-auto'']] = None"
    by (simp add: closest_def)
  show ?thesis
    using menu_click [of AddWidgetButton "''add''" ?p False True
                         "[[''glassmorphic''], [''max-w-4xl'', ''mx-auto'']]"] r c
    by simp
qed

text \<open>
  Claim C8 as stated fails: a click on an element outside this menu that lies inside
  another element of class \<^verbatim>\<open>context-menu\<close> (a second menu, say) invokes nothing, not even
  \<^verbatim>\<open>onClose\<close>.
\<close>

theorem click_outside_counterexample:
  "click False \<lparr>menu_x = 10, menu_y = 20, onClose = ''close'', onAddWidget = Some ''add'',
       onRemoveWidget = None, onRearrangeWidgets = None, showRemove = None\<rparr>
     (Elsewhere [[''w-full'', ''px-4''], [''context-menu'', ''fixed'']]) = []"
  by (simp add: handleClickOutside_def) (simp add: closest_def)

text \<open>
  Claim C9. The remove button is rendered exactly when \<^verbatim>\<open>showRemove\<close> is true and
  \<^verbatim>\<open>onRemoveWidget\<close> is supplied; with \<^verbatim>\<open>showRemove\<close> false or omitted it is not rendered,
  whatever callbacks are supplied.
\<close>

theorem remove_control_guard:
  "(RemoveWidgetButton \<in> fst ` set (render_menu p)) =
     (showRemove p = Some True \<and> onRemoveWidget p \<noteq> None) \<and>
   RemoveWidgetButton \<notin> fst ` set (render_menu (p\<lparr>showRemove := Some False\<rparr>)) \<and>
   RemoveWidgetButton \<notin> fst ` set (render_menu (p\<lparr>showRemove := None\<rparr>))"
proof -
  have "\<And>q::'a ContextMenuProps. (RemoveWidgetButton \<in> fst ` set (render_menu q)) =
          (show_remove q \<and> onRemoveWidget q \<noteq> None)"
    unfolding set_map [symmetric] fst_render_menu by simp
  then show ?thesis
    by (cases "showRemove p") (auto simp: show_remove_def)
qed

end
